theory Spec2Isabelle
  imports Main "HOL-Library.Sublist"
begin

section \<open>Python strings and the primitives the scanner uses\<close>

text \<open>
  The program is \<^verbatim>\<open>clean_comments.py\<close>. A Python \<^verbatim>\<open>str\<close> is modelled as a
  \<^typ>\<open>string\<close> (a list of characters). The scanner compares characters only with the
  ASCII characters double quote, backslash, newline, slash and star, so the model does not
  depend on what the other characters are.
\<close>

abbreviation dquote :: char where
  "dquote \<equiv> CHR 0x22"

abbreviation backslash :: char where
  "backslash \<equiv> CHR 0x5C"

abbreviation newline :: char where
  "newline \<equiv> CHR 0x0A"

abbreviation triple_quote :: string where
  "triple_quote \<equiv> [dquote, dquote, dquote]"

datatype py_error = IndexError | FileNotFoundError

text \<open>\<^verbatim>\<open>source[k]\<close> for a non-negative index: Python raises \<^verbatim>\<open>IndexError\<close> out of range.\<close>

definition char_at :: "string \<Rightarrow> nat \<Rightarrow> py_error + char" where
  "char_at source k = (if k < length source then Inr (source ! k) else Inl IndexError)"

text \<open>\<^verbatim>\<open>source.startswith(pre, k)\<close> for a non-empty prefix: the slice of the source
  that starts at \<open>k\<close> and has the prefix's length equals the prefix. It never raises.\<close>

definition startswith :: "string \<Rightarrow> string \<Rightarrow> nat \<Rightarrow> bool" where
  "startswith source pre k = (take (length pre) (drop k source) = pre)"

section \<open>The scanner state\<close>

text \<open>
  The local variables of \<^verbatim>\<open>remove_comments_swift\<close>: the cursor \<open>i\<close>, the list
  \<open>output_list\<close> (the source's list \<^verbatim>\<open>output\<close>) of emitted pieces (joined when the function returns), the three flags and
  the nesting depth of block comments (a Python integer).
\<close>

record scan_state =
  i :: nat
  output_list :: "string list"
  in_string :: bool
  in_multiline :: bool
  in_line_comment :: bool
  block_comment_depth :: int

definition initial_state :: scan_state where
  "initial_state =
     \<lparr>i = 0, output_list = [], in_string = False, in_multiline = False,
      in_line_comment = False, block_comment_depth = 0\<rparr>"

section \<open>One iteration of the loop\<close>

text \<open>Branch 1 of the loop body: inside a string \<^verbatim>\<open>"..."\<close>.\<close>

definition step_string :: "string \<Rightarrow> scan_state \<Rightarrow> py_error + scan_state" where
  "step_string source st =
     (case char_at source (i st) of
        Inl e \<Rightarrow> Inl e
      | Inr c \<Rightarrow>
          let st1 = st\<lparr>output_list := output_list st @ [[c]]\<rparr> in
          if c = backslash then
            (if i st1 + 1 < length source then
               (case char_at source (i st1 + 1) of
                  Inl e \<Rightarrow> Inl e
                | Inr d \<Rightarrow> Inr (st1\<lparr>i := i st1 + 1 + 1, output_list := output_list st1 @ [[d]]\<rparr>))
             else Inr (st1\<lparr>i := i st1 + 1\<rparr>))
          else if c = dquote then Inr (st1\<lparr>in_string := False, i := i st1 + 1\<rparr>)
          else Inr (st1\<lparr>i := i st1 + 1\<rparr>))"

text \<open>Branch 2: inside a multi-line string. The closing delimiter is tested first, the
  backslash second.\<close>

definition step_multiline :: "string \<Rightarrow> scan_state \<Rightarrow> py_error + scan_state" where
  "step_multiline source st =
     (if startswith source triple_quote (i st) then
        Inr (st\<lparr>output_list := output_list st @ [triple_quote], i := i st + 3, in_multiline := False\<rparr>)
      else
        (case char_at source (i st) of
           Inl e \<Rightarrow> Inl e
         | Inr c \<Rightarrow>
             if c = backslash then
               (let st1 = st\<lparr>output_list := output_list st @ [[c]]\<rparr> in
                if i st1 + 1 < length source then
                  (case char_at source (i st1 + 1) of
                     Inl e \<Rightarrow> Inl e
                   | Inr d \<Rightarrow> Inr (st1\<lparr>i := i st1 + 1 + 1, output_list := output_list st1 @ [[d]]\<rparr>))
                else Inr (st1\<lparr>i := i st1 + 1\<rparr>))
             else Inr (st\<lparr>output_list := output_list st @ [[c]], i := i st + 1\<rparr>)))"

text \<open>Branch 3: inside a line comment. Only a newline is emitted.\<close>

definition step_line_comment :: "string \<Rightarrow> scan_state \<Rightarrow> py_error + scan_state" where
  "step_line_comment source st =
     (case char_at source (i st) of
        Inl e \<Rightarrow> Inl e
      | Inr c \<Rightarrow>
          if c = newline then
            Inr (st\<lparr>in_line_comment := False, output_list := output_list st @ [[c]], i := i st + 1\<rparr>)
          else Inr (st\<lparr>i := i st + 1\<rparr>))"

text \<open>Branch 4: inside a block comment. Nothing is emitted.\<close>

definition step_block_comment :: "string \<Rightarrow> scan_state \<Rightarrow> py_error + scan_state" where
  "step_block_comment source st =
     (if startswith source ''/*'' (i st) then
        Inr (st\<lparr>block_comment_depth := block_comment_depth st + 1, i := i st + 2\<rparr>)
      else if startswith source ''*/'' (i st) then
        Inr (st\<lparr>block_comment_depth := block_comment_depth st - 1, i := i st + 2\<rparr>)
      else Inr (st\<lparr>i := i st + 1\<rparr>))"

text \<open>Branch 5: the code state, with its four prefix checks in the order of the source.\<close>

definition step_code :: "string \<Rightarrow> scan_state \<Rightarrow> py_error + scan_state" where
  "step_code source st =
     (if startswith source triple_quote (i st) then
        Inr (st\<lparr>output_list := output_list st @ [triple_quote], in_multiline := True, i := i st + 3\<rparr>)
      else
        (case char_at source (i st) of
           Inl e \<Rightarrow> Inl e
         | Inr c \<Rightarrow>
             if c = dquote then
               Inr (st\<lparr>output_list := output_list st @ [[dquote]], in_string := True, i := i st + 1\<rparr>)
             else if startswith source ''//'' (i st) then
               Inr (st\<lparr>in_line_comment := True, i := i st + 2\<rparr>)
             else if startswith source ''/*'' (i st) then
               Inr (st\<lparr>block_comment_depth := 1, i := i st + 2\<rparr>)
             else Inr (st\<lparr>output_list := output_list st @ [[c]], i := i st + 1\<rparr>)))"

text \<open>The body of the \<^verbatim>\<open>while\<close> loop: the first branch whose test holds runs.\<close>

definition step :: "string \<Rightarrow> scan_state \<Rightarrow> py_error + scan_state" where
  "step source st =
     (if in_string st then step_string source st
      else if in_multiline st then step_multiline source st
      else if in_line_comment st then step_line_comment source st
      else if block_comment_depth st > 0 then step_block_comment source st
      else step_code source st)"

section \<open>The loop and the function\<close>

text \<open>\<^verbatim>\<open>while i < n\<close>: an error of the body leaves the loop.\<close>

function loop :: "string \<Rightarrow> scan_state \<Rightarrow> py_error + scan_state" where
  "loop source st =
     (if i st < length source then
        (case step source st of Inl e \<Rightarrow> Inl e | Inr st' \<Rightarrow> loop source st')
      else Inr st)"
  by pat_completeness auto
termination
proof (relation "measure (\<lambda>(source, st). length source - i st)")
  show "wf (measure (\<lambda>(source, st). length source - i st))"
    by simp
next
  fix source :: string and st st' :: scan_state
  assume "i st < length source" and "step source st = Inr st'"
  from this(2) have "i st < i st'"
    by (auto simp: step_def step_string_def step_multiline_def step_line_comment_def
        step_block_comment_def step_code_def Let_def split: if_splits sum.splits)
  with \<open>i st < length source\<close>
  show "((source, st'), (source, st)) \<in> measure (\<lambda>(source, st). length source - i st)"
    by simp
qed

declare loop.simps [simp del]

definition remove_comments_swift :: "string \<Rightarrow> py_error + string" where
  "remove_comments_swift source =
     (case loop source initial_state of
        Inl e \<Rightarrow> Inl e
      | Inr st \<Rightarrow> Inr (concat (output_list st)))"

text \<open>The code state: none of the four tests at the head of the loop body holds.\<close>

definition in_code :: "scan_state \<Rightarrow> bool" where
  "in_code st =
     (\<not> in_string st \<and> \<not> in_multiline st \<and> \<not> in_line_comment st \<and>
      \<not> block_comment_depth st > 0)"

section \<open>Classes of input text\<close>

text \<open>These predicates describe input texts in the hypotheses of the theorems below;
  the scanner does not use them.\<close>

text \<open>The body of a single-line string literal: characters other than the double quote
  and the backslash, and backslash escapes (a backslash and the character after it).\<close>

fun string_body :: "string \<Rightarrow> bool" where
  "string_body [] = True"
| "string_body [c] = (c \<noteq> backslash \<and> c \<noteq> dquote)"
| "string_body (c # d # cs) =
     (if c = backslash then string_body cs else c \<noteq> dquote \<and> string_body (d # cs))"

text \<open>The body of a triple-quoted literal: characters and backslash escapes, where no
  unescaped double quote starts a run of three and the last character is neither an
  unescaped double quote nor an unpaired backslash (either would join the closing
  delimiter).\<close>

fun multiline_body :: "string \<Rightarrow> bool" where
  "multiline_body [] = True"
| "multiline_body [c] = (c \<noteq> backslash \<and> c \<noteq> dquote)"
| "multiline_body (c # d # cs) =
     (if c = backslash then multiline_body cs
      else \<not> (c = dquote \<and> d = dquote \<and> cs \<noteq> [] \<and> hd cs = dquote) \<and>
           multiline_body (d # cs))"



section \<open>The scan by the text left to scan\<close>

text \<open>
  A second view of the loop, used in the proofs about scanning an output again: the
  text the loop emits from a state depends only on which of the five branches is active
  and on the source from the cursor on. \<open>mode_of\<close> names the active branch,
  \<open>scan\<close> is the emitted text as a function of the branch and of the text left,
  and \<open>one_state\<close> says that at most one of the flags and the depth is set, as in
  every state the loop reaches. Lemma \<open>loop_scan\<close> proves that the loop emits
  what \<open>scan\<close> describes.
\<close>

datatype mode = MCode | MString | MMultiline | MLineComment | MBlockComment int


function scan :: "mode \<Rightarrow> string \<Rightarrow> string" where
  "scan m [] = []"
| "scan MString (c # r) =
     (if c = backslash then (case r of [] \<Rightarrow> [c] | d # r' \<Rightarrow> c # d # scan MString r')
      else if c = dquote then c # scan MCode r
      else c # scan MString r)"
| "scan MMultiline (c # r) =
     (if startswith (c # r) triple_quote 0 then triple_quote @ scan MCode (tl (tl r))
      else if c = backslash then
        (case r of [] \<Rightarrow> [c] | d # r' \<Rightarrow> c # d # scan MMultiline r')
      else c # scan MMultiline r)"
| "scan MLineComment (c # r) =
     (if c = newline then c # scan MCode r else scan MLineComment r)"
| "scan (MBlockComment d) (c # r) =
     (if startswith (c # r) ''/*'' 0 then scan (MBlockComment (d + 1)) (tl r)
      else if startswith (c # r) ''*/'' 0 then
        scan (if d - 1 > 0 then MBlockComment (d - 1) else MCode) (tl r)
      else scan (MBlockComment d) r)"
| "scan MCode (c # r) =
     (if startswith (c # r) triple_quote 0 then triple_quote @ scan MMultiline (tl (tl r))
      else if c = dquote then c # scan MString r
      else if startswith (c # r) ''//'' 0 then scan MLineComment (tl r)
      else if startswith (c # r) ''/*'' 0 then scan (MBlockComment 1) (tl r)
      else c # scan MCode r)"
  by pat_completeness auto
termination
  by (relation "measure (\<lambda>(m, s). length s)") auto

declare scan.simps(2-6) [simp del]



section \<open>The per-file workflow\<close>

text \<open>
  \<^verbatim>\<open>process_file\<close> reads a file, scans it and writes it back when the text changed.
  The world it acts on: the files by path, the sequence of writes performed so far, and
  the lines printed. Opening a missing file for reading raises; other I/O failures
  (permissions, decoding) are outside the model.
\<close>

record world =
  files :: "string \<rightharpoonup> string"
  writes :: "(string \<times> string) list"
  stdout :: "string list"

definition process_file :: "world \<Rightarrow> string \<Rightarrow> py_error + world" where
  "process_file w file_path =
     (case files w file_path of
        None \<Rightarrow> Inl FileNotFoundError
      | Some content \<Rightarrow>
          (case remove_comments_swift content of
             Inl e \<Rightarrow> Inl e
           | Inr new_content \<Rightarrow>
               if new_content \<noteq> content then
                 Inr (w\<lparr>stdout := stdout w @ [''Cleaning '' @ file_path],
                        files := (files w)(file_path \<mapsto> new_content),
                        writes := writes w @ [(file_path, new_content)]\<rparr>)
               else Inr (w\<lparr>stdout := stdout w @ [''No comments found in '' @ file_path]\<rparr>)))"

section \<open>Reading the source at the cursor\<close>

text \<open>Every decision of the loop body depends on the source only through the text at
  the cursor, \<open>drop (i st) source\<close>. The lemmas of this section read the primitives
  and the five branches off that text.\<close>

lemma drop_view:
  "k < length s \<Longrightarrow> \<exists>r. drop k s = s ! k # r"
  by (metis Cons_nth_drop_Suc)

lemma drop_view_lt: "drop k s = c # r \<Longrightarrow> k < length s"
  by (metis drop_all linorder_not_less list.distinct(1))

lemma drop_view_nth: "drop k s = c # r \<Longrightarrow> s ! k = c"
  by (metis drop_view_lt hd_drop_conv_nth list.sel(1))

lemma char_at_view: "drop k s = c # r \<Longrightarrow> char_at s k = Inr c"
  by (simp add: char_at_def drop_view_lt drop_view_nth)

lemma drop_view_Suc: "drop k s = c # r \<Longrightarrow> drop (Suc k) s = r"
  by (metis drop_Suc list.sel(3) tl_drop)

lemma drop_view_add: "drop k s = u @ r \<Longrightarrow> drop (k + length u) s = r"
  by (metis add.commute append_eq_conv_conj drop_drop)

lemma char_at_next:
  "drop k s = c # d # r \<Longrightarrow> char_at s (Suc k) = Inr d \<and> Suc k < length s"
  using drop_view_Suc [of k s c "d # r"] char_at_view [of "Suc k" s d r] drop_view_lt [of "Suc k" s d r]
  by simp

lemma char_at_last:
  "drop k s = [c] \<Longrightarrow> \<not> Suc k < length s"
  using drop_view_Suc [of k s c "[]"] by simp

lemma step_string_view:
  assumes "drop (i st) source = c # r"
  shows "step_string source st = Inr
     (if c = backslash then
        (case r of [] \<Rightarrow> st\<lparr>output_list := output_list st @ [[c]], i := i st + 1\<rparr>
         | d # _ \<Rightarrow> st\<lparr>output_list := output_list st @ [[c], [d]], i := i st + 2\<rparr>)
      else if c = dquote then st\<lparr>output_list := output_list st @ [[c]], in_string := False, i := i st + 1\<rparr>
      else st\<lparr>output_list := output_list st @ [[c]], i := i st + 1\<rparr>)"
  using assms char_at_view [OF assms]
  by (cases r) (auto simp: step_string_def Let_def dest: char_at_next char_at_last)

lemma step_multiline_view:
  assumes "drop (i st) source = c # r"
  shows "step_multiline source st = Inr
     (if startswith source triple_quote (i st) then
        st\<lparr>output_list := output_list st @ [triple_quote], i := i st + 3, in_multiline := False\<rparr>
      else if c = backslash then
        (case r of [] \<Rightarrow> st\<lparr>output_list := output_list st @ [[c]], i := i st + 1\<rparr>
         | d # _ \<Rightarrow> st\<lparr>output_list := output_list st @ [[c], [d]], i := i st + 2\<rparr>)
      else st\<lparr>output_list := output_list st @ [[c]], i := i st + 1\<rparr>)"
  using assms char_at_view [OF assms]
  by (cases r) (auto simp: step_multiline_def Let_def dest: char_at_next char_at_last)

lemma step_line_comment_view:
  assumes "drop (i st) source = c # r"
  shows "step_line_comment source st = Inr
     (if c = newline then st\<lparr>in_line_comment := False, output_list := output_list st @ [[c]], i := i st + 1\<rparr>
      else st\<lparr>i := i st + 1\<rparr>)"
  using assms char_at_view [OF assms]
  by (auto simp: step_line_comment_def)

lemma step_block_comment_view:
  assumes "drop (i st) source = c # r"
  shows "step_block_comment source st = Inr
     (if startswith source ''/*'' (i st) then st\<lparr>block_comment_depth := block_comment_depth st + 1, i := i st + 2\<rparr>
      else if startswith source ''*/'' (i st) then st\<lparr>block_comment_depth := block_comment_depth st - 1, i := i st + 2\<rparr>
      else st\<lparr>i := i st + 1\<rparr>)"
  by (simp add: step_block_comment_def)

lemma step_code_view:
  assumes "drop (i st) source = c # r"
  shows "step_code source st = Inr
     (if startswith source triple_quote (i st) then
        st\<lparr>output_list := output_list st @ [triple_quote], in_multiline := True, i := i st + 3\<rparr>
      else if c = dquote then st\<lparr>output_list := output_list st @ [[dquote]], in_string := True, i := i st + 1\<rparr>
      else if startswith source ''//'' (i st) then st\<lparr>in_line_comment := True, i := i st + 2\<rparr>
      else if startswith source ''/*'' (i st) then st\<lparr>block_comment_depth := 1, i := i st + 2\<rparr>
      else st\<lparr>output_list := output_list st @ [[c]], i := i st + 1\<rparr>)"
  using assms char_at_view [OF assms]
  by (simp add: step_code_def)

lemma startswith_length:
  assumes "startswith source pre k" and "k \<le> length source"
  shows "k + length pre \<le> length source"
proof -
  have "length (take (length pre) (drop k source)) = length pre"
    using assms(1) by (simp add: startswith_def)
  then show ?thesis
    using assms(2) by simp
qed

lemma startswith_take3:
  "startswith source [a, b, c] k \<Longrightarrow> take 3 (drop k source) = [a, b, c]"
  by (simp add: startswith_def numeral_3_eq_3)

lemma startswith_take2:
  "startswith source [a, b] k \<Longrightarrow> take 2 (drop k source) = [a, b]"
  by (simp add: startswith_def numeral_2_eq_2)

section \<open>What one iteration emits\<close>

text \<open>An iteration inside the input never raises, moves the cursor forward and not
  past the end, and appends to the output a subsequence of the characters it passed.\<close>

lemma step_emits:
  assumes lt: "i st < length source"
  shows "\<exists>st' e. step source st = Inr st' \<and> i st < i st' \<and> i st' \<le> length source \<and>
     concat (output_list st') = concat (output_list st) @ e \<and>
     subseq e (take (i st' - i st) (drop (i st) source))"
proof -
  from lt obtain c r where v: "drop (i st) source = c # r"
    using drop_view by blast
  have n: "length source = i st + Suc (length r)"
    using arg_cong [OF v, of length] lt by simp
  note sw = startswith_length [of source _ "i st"] 
  consider (s) "in_string st" | (m) "\<not> in_string st" "in_multiline st"
    | (l) "\<not> in_string st" "\<not> in_multiline st" "in_line_comment st"
    | (b) "\<not> in_string st" "\<not> in_multiline st" "\<not> in_line_comment st" "block_comment_depth st > 0"
    | (c) "\<not> in_string st" "\<not> in_multiline st" "\<not> in_line_comment st" "\<not> block_comment_depth st > 0"
    by blast
  then show ?thesis
  proof cases
    case s
    then show ?thesis
      using n by (cases r) (simp_all add: step_def step_string_view [OF v] v)
  next
    case m
    show ?thesis
    proof (cases "startswith source triple_quote (i st)")
      case True
      then show ?thesis using m n sw [of triple_quote] startswith_take3 [of source _ _ _ "i st"]
        by (simp add: step_def step_multiline_view [OF v])
    next
      case False
      then show ?thesis using m n 
        by (cases r) (simp_all add: step_def step_multiline_view [OF v] v)
    qed
  next
    case l
    then show ?thesis
      using n by (simp add: step_def step_line_comment_view [OF v] v)
  next
    case b
    then show ?thesis
      using n sw [of "''/*''"] sw [of "''*/''"] startswith_take2 [of source _ _ "i st"]
      by (simp add: step_def step_block_comment_view [OF v])
  next
    case c
    show ?thesis
    proof (cases "startswith source triple_quote (i st)")
      case True
      then show ?thesis using c n sw [of triple_quote] startswith_take3 [of source _ _ _ "i st"]
        by (simp add: step_def step_code_view [OF v])
    next
      case False
      then show ?thesis using c n sw [of "''/*''"] sw [of "''//''"] startswith_take2 [of source _ _ "i st"]
        by (simp add: step_def step_code_view [OF v] v)
    qed
  qed
qed

lemma loop_emits:
  "i st \<le> length source \<Longrightarrow>
   \<exists>st' e. loop source st = Inr st' \<and> i st' = length source \<and>
     concat (output_list st') = concat (output_list st) @ e \<and>
     subseq e (drop (i st) source)"
proof (induction source st rule: loop.induct)
  case (1 source st)
  show ?case
  proof (cases "i st < length source")
    case False
    with "1.prems" show ?thesis
      by (simp add: loop.simps [of source st])
  next
    case True
    from step_emits [OF True] obtain st1 e1 where
      s1: "step source st = Inr st1" and adv: "i st < i st1" and le: "i st1 \<le> length source"
      and o1: "concat (output_list st1) = concat (output_list st) @ e1"
      and e1: "subseq e1 (take (i st1 - i st) (drop (i st) source))"
      by blast
    from "1.IH" [OF True s1 le] obtain st2 e2 where
      s2: "loop source st1 = Inr st2" and fin: "i st2 = length source"
      and o2: "concat (output_list st2) = concat (output_list st1) @ e2"
      and e2: "subseq e2 (drop (i st1) source)"
      by blast
    have split: "drop (i st) source =
        take (i st1 - i st) (drop (i st) source) @ drop (i st1) source"
      using adv by (metis append_take_drop_id drop_drop le_add_diff_inverse2 less_imp_le_nat)
    have "subseq (e1 @ e2) (drop (i st) source)"
      using list_emb_append_mono [OF e1 e2] split by simp
    moreover have "loop source st = Inr st2"
      using True s1 s2 by (simp add: loop.simps [of source st])
    ultimately show ?thesis
      using fin o1 o2 by auto
  qed
qed

section \<open>Totality\<close>

text \<open>
  C7: \<^verbatim>\<open>remove_comments_swift\<close> returns a string for every input and raises nothing.
  Every iteration that starts inside the input succeeds in whatever state is active
  (the flags and the depth of \<open>st\<close> are arbitrary), moves the cursor forward and
  not past the end; the loop started at any cursor inside the input returns with the
  cursor at the end of the input. That the loop terminates is the termination proof of
  \<open>loop\<close>, whose measure is the distance of the cursor to the end.
\<close>

theorem remove_comments_swift_total:
  "(\<exists>out. remove_comments_swift source = Inr out) \<and>
   (i st < length source \<longrightarrow>
      (\<exists>st'. step source st = Inr st' \<and> i st < i st' \<and> i st' \<le> length source)) \<and>
   (i st \<le> length source \<longrightarrow>
      (\<exists>st'. loop source st = Inr st' \<and> i st' = length source))"
proof (intro conjI impI)
  show "\<exists>out. remove_comments_swift source = Inr out"
    using loop_emits [of initial_state source]
    by (auto simp: remove_comments_swift_def initial_state_def)
next
  assume "i st < length source"
  from step_emits [OF this]
  show "\<exists>st'. step source st = Inr st' \<and> i st < i st' \<and> i st' \<le> length source"
    by blast
next
  assume "i st \<le> length source"
  from loop_emits [OF this]
  show "\<exists>st'. loop source st = Inr st' \<and> i st' = length source"
    by blast
qed

text \<open>The input \<^verbatim>\<open>"ab\<close> is an unterminated string literal, scanned here from the
  initial state.\<close>

theorem remove_comments_swift_total_witness:
  "(\<exists>out. remove_comments_swift (dquote # ''ab'') = Inr out) \<and>
   (i initial_state < length (dquote # ''ab'') \<and>
      (\<exists>st'. step (dquote # ''ab'') initial_state = Inr st' \<and> i initial_state < i st' \<and>
         i st' \<le> length (dquote # ''ab''))) \<and>
   (i initial_state \<le> length (dquote # ''ab'') \<and>
      (\<exists>st'. loop (dquote # ''ab'') initial_state = Inr st' \<and>
         i st' = length (dquote # ''ab'')))"
  using remove_comments_swift_total [of "dquote # ''ab''" initial_state]
  by (simp add: initial_state_def)

section \<open>The output is a subsequence of the input\<close>

text \<open>
  C10: for every input the output of \<^verbatim>\<open>remove_comments_swift\<close> is a subsequence of
  the input (each output character comes from an input character, none is emitted
  twice, the order is kept), so it is never longer than the input; the empty input
  gives the empty output.
\<close>

theorem remove_comments_swift_subsequence:
  "(\<exists>out. remove_comments_swift source = Inr out \<and> subseq out source \<and>
      length out \<le> length source) \<and>
   remove_comments_swift [] = Inr []"
proof
  from loop_emits [of initial_state source]
  obtain st' where "loop source initial_state = Inr st'"
    and "subseq (concat (output_list st')) source"
    by (auto simp: initial_state_def)
  then show "\<exists>out. remove_comments_swift source = Inr out \<and> subseq out source \<and>
      length out \<le> length source"
    by (auto simp: remove_comments_swift_def dest: list_emb_length)
next
  show "remove_comments_swift [] = Inr []"
    by (simp add: remove_comments_swift_def initial_state_def loop.simps [of "[]"])
qed

section \<open>The write is gated by the comparison\<close>

text \<open>
  C9: when \<^verbatim>\<open>process_file\<close> reads a file whose scanned text equals its content, it
  writes nothing: the files and the sequence of writes are unchanged and the line
  printed is the "No comments found" one. It performs a write (one, of the scanned text,
  to the same path) exactly when the scanned text differs from the content read.
\<close>

theorem process_file_write_gated:
  assumes "files w file_path = Some content"
  shows "\<exists>w' new_content.
     remove_comments_swift content = Inr new_content \<and>
     process_file w file_path = Inr w' \<and>
     (if new_content = content then
        files w' = files w \<and> writes w' = writes w \<and>
        stdout w' = stdout w @ [''No comments found in '' @ file_path]
      else
        files w' = (files w)(file_path \<mapsto> new_content) \<and>
        writes w' = writes w @ [(file_path, new_content)] \<and>
        stdout w' = stdout w @ [''Cleaning '' @ file_path])"
proof -
  from loop_emits [of initial_state content]
  obtain new_content where "remove_comments_swift content = Inr new_content"
    by (auto simp: remove_comments_swift_def initial_state_def)
  with assms show ?thesis
    by (simp add: process_file_def)
qed

theorem process_file_write_gated_witness:
  "files \<lparr>files = [''a.swift'' \<mapsto> ''x = 1''], writes = [], stdout = []\<rparr> ''a.swift''
     = Some ''x = 1'' \<and>
   process_file \<lparr>files = [''a.swift'' \<mapsto> ''x = 1''], writes = [], stdout = []\<rparr> ''a.swift''
     = Inr \<lparr>files = [''a.swift'' \<mapsto> ''x = 1''], writes = [],
            stdout = [''No comments found in a.swift'']\<rparr>"
proof -
  have scan: "remove_comments_swift ''x = 1'' = Inr ''x = 1''"
    by code_simp
  show ?thesis
    using process_file_write_gated
      [of "\<lparr>files = [''a.swift'' \<mapsto> ''x = 1''], writes = [], stdout = []\<rparr>"
          "''a.swift''" "''x = 1''"]
    by (auto simp: scan intro: world.equality)
qed

section \<open>Comments\<close>


lemma loop_step:
  "drop (i st) source = c # r \<Longrightarrow> step source st = Inr st1 \<Longrightarrow> loop source st = loop source st1"
  by (simp add: loop.simps [of source st] drop_view_lt)

lemma line_comment_skip:
  "\<not> in_string st \<Longrightarrow> \<not> in_multiline st \<Longrightarrow> in_line_comment st \<Longrightarrow>
   drop (i st) source = body @ newline # rest \<Longrightarrow> newline \<notin> set body \<Longrightarrow>
   loop source st =
     loop source (st\<lparr>in_line_comment := False, output_list := output_list st @ [[newline]],
                     i := i st + length body + 1\<rparr>)"
proof (induction body arbitrary: st)
  case Nil
  then have v: "drop (i st) source = newline # rest" by simp
  show ?case
    using Nil loop_step [OF v, of "st\<lparr>in_line_comment := False, output_list := output_list st @ [[newline]], i := i st + 1\<rparr>"]
    by (simp add: step_def step_line_comment_view [OF v])
next
  case (Cons c cs)
  then have v: "drop (i st) source = c # (cs @ newline # rest)" by simp
  let ?st1 = "st\<lparr>i := i st + 1\<rparr>"
  have s: "step source st = Inr ?st1"
    using Cons.prems by (auto simp: step_def step_line_comment_view [OF v])
  have "loop source ?st1 =
     loop source (?st1\<lparr>in_line_comment := False, output_list := output_list ?st1 @ [[newline]],
                     i := i ?st1 + length cs + 1\<rparr>)"
    using Cons.prems drop_view_Suc [OF v] by (intro Cons.IH) simp_all
  then show ?case
    using loop_step [OF v s] by simp
qed


lemma enter_line_comment:
  assumes "in_code st" and v: "drop (i st) source = CHR ''/'' # CHR ''/'' # r"
  shows "loop source st = loop source (st\<lparr>in_line_comment := True, i := i st + 2\<rparr>)"
proof -
  have "step source st = Inr (st\<lparr>in_line_comment := True, i := i st + 2\<rparr>)"
    using assms by (simp add: in_code_def step_def step_code_view [OF v] startswith_def)
  then show ?thesis
    by (rule loop_step [OF v])
qed


lemma scan_state_flag_eqs:
  "\<not> in_line_comment st \<Longrightarrow> st\<lparr>in_line_comment := False\<rparr> = st"
  "\<not> in_string st \<Longrightarrow> st\<lparr>in_string := False\<rparr> = st"
  "\<not> in_multiline st \<Longrightarrow> st\<lparr>in_multiline := False\<rparr> = st"
  by (cases st; simp)+

text \<open>
  C6: a line comment met in the code state, \<^verbatim>\<open>//\<close> followed by a body without
  newline and by a newline, is dropped up to the newline, and the newline is emitted:
  the scan continues in the code state just after the newline, with the newline as the
  only piece added to the output, so what follows is scanned as code. On
  \<^verbatim>\<open>a //comment\nb\<close> the function returns \<^verbatim>\<open>a \nb\<close>.
\<close>

theorem line_comment_dropped:
  assumes "in_code st"
    and "drop (i st) source = ''//'' @ body @ newline # rest"
    and "newline \<notin> set body"
  shows "loop source st =
           loop source (st\<lparr>output_list := output_list st @ [[newline]],
                           i := i st + 2 + length body + 1\<rparr>) \<and>
         remove_comments_swift (''a //comment'' @ [newline] @ ''b'') =
           Inr (''a '' @ [newline] @ ''b'')"
proof
  let ?st1 = "st\<lparr>in_line_comment := True, i := i st + 2\<rparr>"
  have v: "drop (i st) source = CHR ''/'' # CHR ''/'' # (body @ newline # rest)"
    using assms(2) by simp
  have e: "loop source st = loop source ?st1"
    using enter_line_comment [OF assms(1) v] .
  have v1: "drop (i ?st1) source = body @ newline # rest"
    using drop_view_add [of "i st" source "''//''" "body @ newline # rest"] assms(2) by simp
  have "loop source ?st1 =
     loop source (?st1\<lparr>in_line_comment := False, output_list := output_list ?st1 @ [[newline]],
                      i := i ?st1 + length body + 1\<rparr>)"
    using assms(1,3) v1 by (intro line_comment_skip) (simp_all add: in_code_def)
  also have "?st1\<lparr>in_line_comment := False, output_list := output_list ?st1 @ [[newline]],
                      i := i ?st1 + length body + 1\<rparr> =
      st\<lparr>output_list := output_list st @ [[newline]], i := i st + 2 + length body + 1\<rparr>"
    using assms(1) scan_state_flag_eqs(1) [of st] by (simp add: in_code_def)
  finally show "loop source st =
           loop source (st\<lparr>output_list := output_list st @ [[newline]],
                           i := i st + 2 + length body + 1\<rparr>)"
    using e by simp
next
  show "remove_comments_swift (''a //comment'' @ [newline] @ ''b'') =
           Inr (''a '' @ [newline] @ ''b'')"
    by code_simp
qed

theorem line_comment_dropped_witness:
  "in_code initial_state \<and>
   drop (i initial_state) (''//c'' @ [newline] @ ''b'') = ''//'' @ ''c'' @ newline # ''b'' \<and>
   newline \<notin> set ''c'' \<and>
   loop (''//c'' @ [newline] @ ''b'') initial_state =
     loop (''//c'' @ [newline] @ ''b'')
       (initial_state\<lparr>output_list := output_list initial_state @ [[newline]],
                       i := i initial_state + 2 + length ''c'' + 1\<rparr>)"
  using line_comment_dropped [of initial_state "''//c'' @ [newline] @ ''b''" "''c''" "''b''"]
  by (simp add: initial_state_def in_code_def)

lemma drop_view_to:
  "drop k s = u @ r \<Longrightarrow> k' = k + length u \<Longrightarrow> drop k' s = r"
  using drop_view_add [of k s u r] by simp







section \<open>String literals\<close>

lemma string_char_to:
  assumes "in_string st" and v: "drop (i st) source = c # r"
    and "c \<noteq> backslash" "c \<noteq> dquote"
    and "st' = st\<lparr>output_list := output_list st @ [[c]], i := i st + 1\<rparr>"
  shows "loop source st = loop source st'"
proof -
  have "step source st = Inr st'"
    using assms by (simp add: step_def step_string_view [OF v])
  then show ?thesis
    by (rule loop_step [OF v])
qed

lemma string_escape_to:
  assumes "in_string st" and v: "drop (i st) source = backslash # d # r"
    and "st' = st\<lparr>output_list := output_list st @ [[backslash], [d]], i := i st + 2\<rparr>"
  shows "loop source st = loop source st'"
proof -
  have "step source st = Inr st'"
    using assms by (simp add: step_def step_string_view [OF v])
  then show ?thesis
    by (rule loop_step [OF v])
qed

lemma string_close_to:
  assumes "in_string st" and v: "drop (i st) source = dquote # r"
    and "st' = st\<lparr>output_list := output_list st @ [[dquote]], in_string := False, i := i st + 1\<rparr>"
  shows "loop source st = loop source st'"
proof -
  have "step source st = Inr st'"
    using assms by (simp add: step_def step_string_view [OF v])
  then show ?thesis
    by (rule loop_step [OF v])
qed

lemma string_skip:
  "string_body body \<Longrightarrow> in_string st \<Longrightarrow> drop (i st) source = body @ dquote # rest \<Longrightarrow>
   loop source st =
     loop source (st\<lparr>output_list := output_list st @ map (\<lambda>c. [c]) (body @ [dquote]),
                     in_string := False, i := i st + length body + 1\<rparr>)"
proof (induction body arbitrary: st rule: string_body.induct)
  case 1
  then show ?case
    by (intro string_close_to [where r = rest]) simp_all
next
  case (2 c)
  let ?s1 = "st\<lparr>output_list := output_list st @ [[c]], i := i st + 1\<rparr>"
  have v: "drop (i st) source = c # dquote # rest"
    using 2 by simp
  have "loop source st = loop source ?s1"
    using 2 v by (intro string_char_to [OF _ v]) simp_all
  also have "\<dots> = loop source (st\<lparr>output_list := output_list st @ map (\<lambda>c. [c]) ([c] @ [dquote]),
                     in_string := False, i := i st + length [c] + 1\<rparr>)"
    using 2 drop_view_Suc [OF v] by (intro string_close_to [where r = rest]) simp_all
  finally show ?case .
next
  case (3 c d cs)
  have v: "drop (i st) source = c # d # (cs @ dquote # rest)"
    using 3 by simp
  show ?case
  proof (cases "c = backslash")
    case True
    let ?s1 = "st\<lparr>output_list := output_list st @ [[backslash], [d]], i := i st + 2\<rparr>"
    have v1: "drop (i ?s1) source = cs @ dquote # rest"
      using drop_view_to [of "i st" source "[c, d]" "cs @ dquote # rest" "i ?s1"] v by simp
    have "loop source st = loop source ?s1"
      using 3 v True by (intro string_escape_to [where d = d and r = "cs @ dquote # rest"]) simp_all
    also have "\<dots> = loop source (?s1\<lparr>output_list := output_list ?s1 @ map (\<lambda>c. [c]) (cs @ [dquote]),
                     in_string := False, i := i ?s1 + length cs + 1\<rparr>)"
      using 3 True v1 by (intro "3.IH"(1)) simp_all
    finally show ?thesis
      using True by simp
  next
    case False
    let ?s1 = "st\<lparr>output_list := output_list st @ [[c]], i := i st + 1\<rparr>"
    have v1: "drop (i ?s1) source = (d # cs) @ dquote # rest"
      using drop_view_Suc [OF v] by simp
    have "loop source st = loop source ?s1"
      using 3 False by (intro string_char_to [OF _ v]) simp_all
    also have "\<dots> = loop source (?s1\<lparr>output_list := output_list ?s1 @ map (\<lambda>c. [c]) ((d # cs) @ [dquote]),
                     in_string := False, i := i ?s1 + length (d # cs) + 1\<rparr>)"
      using 3 False v1 by (intro "3.IH"(2)) simp_all
    finally show ?thesis
      by simp
  qed
qed

lemma enter_string_to:
  assumes "in_code st" and v: "drop (i st) source = dquote # r"
    and "\<not> startswith source triple_quote (i st)"
    and "st' = st\<lparr>output_list := output_list st @ [[dquote]], in_string := True, i := i st + 1\<rparr>"
  shows "loop source st = loop source st'"
proof -
  have "step source st = Inr st'"
    using assms by (simp add: in_code_def step_def step_code_view [OF v])
  then show ?thesis
    by (rule loop_step [OF v])
qed

lemma string_literal_skip:
  assumes code: "in_code st"
    and v: "drop (i st) source = dquote # body @ dquote # rest"
    and body: "string_body body"
    and single: "\<not> startswith source triple_quote (i st)"
  shows "loop source st =
     loop source (st\<lparr>output_list := output_list st @ map (\<lambda>c. [c]) (dquote # body @ [dquote]),
                     i := i st + length body + 2\<rparr>)"
proof -
  let ?s1 = "st\<lparr>output_list := output_list st @ [[dquote]], in_string := True, i := i st + 1\<rparr>"
  have v1: "drop (i ?s1) source = body @ dquote # rest"
    using drop_view_Suc [OF v] by simp
  have "loop source st = loop source ?s1"
    using code single by (intro enter_string_to [OF _ v]) simp_all
  also have "\<dots> = loop source (?s1\<lparr>output_list := output_list ?s1 @ map (\<lambda>c. [c]) (body @ [dquote]),
                     in_string := False, i := i ?s1 + length body + 1\<rparr>)"
    using body v1 by (intro string_skip) simp_all
  also have "?s1\<lparr>output_list := output_list ?s1 @ map (\<lambda>c. [c]) (body @ [dquote]),
                     in_string := False, i := i ?s1 + length body + 1\<rparr> =
     st\<lparr>output_list := output_list st @ map (\<lambda>c. [c]) (dquote # body @ [dquote]),
                     i := i st + length body + 2\<rparr>"
    using code scan_state_flag_eqs(2) [of st] by (simp add: in_code_def)
  finally show ?thesis .
qed

lemma concat_singletons: "concat (map (\<lambda>c. [c]) xs) = xs"
  by (induction xs) simp_all

text \<open>
  C4: a single-line string literal met in the code state, a double quote that does not
  start \<^verbatim>\<open>"""\<close>, a body of plain characters and backslash escapes, and the closing
  double quote, is copied to the output as it is, delimiters included, whatever
  comment-like text the body holds; the scan continues in the code state after the
  closing quote. Inside the string a backslash is emitted with the character after it
  and the cursor moves past both (past the backslash alone at the end of the input), so
  an escaped quote does not end the string. The source \<^verbatim>\<open>x = "a\"b"\<close> is returned
  unchanged.
\<close>

theorem string_literal_copied:
  "(in_code st \<and> drop (i st) source = dquote # body @ dquote # rest \<and> string_body body \<and>
    \<not> startswith source triple_quote (i st) \<longrightarrow>
      (\<exists>pieces. concat pieces = dquote # body @ [dquote] \<and>
         loop source st =
           loop source (st\<lparr>output_list := output_list st @ pieces,
                           i := i st + length body + 2\<rparr>))) \<and>
   (in_string st1 \<and> drop (i st1) source = backslash # d # r \<longrightarrow>
      step source st1 =
        Inr (st1\<lparr>output_list := output_list st1 @ [[backslash], [d]], i := i st1 + 2\<rparr>)) \<and>
   (in_string st2 \<and> drop (i st2) source = [backslash] \<longrightarrow>
      step source st2 =
        Inr (st2\<lparr>output_list := output_list st2 @ [[backslash]], i := i st2 + 1\<rparr>)) \<and>
   remove_comments_swift (''x = '' @ [dquote] @ ''a'' @ [backslash, dquote] @ ''b'' @ [dquote]) =
     Inr (''x = '' @ [dquote] @ ''a'' @ [backslash, dquote] @ ''b'' @ [dquote])"
proof (intro conjI impI)
  assume h: "in_code st \<and> drop (i st) source = dquote # body @ dquote # rest \<and>
    string_body body \<and> \<not> startswith source triple_quote (i st)"
  show "\<exists>pieces. concat pieces = dquote # body @ [dquote] \<and>
         loop source st =
           loop source (st\<lparr>output_list := output_list st @ pieces,
                           i := i st + length body + 2\<rparr>)"
  proof (intro exI conjI)
    show "concat (map (\<lambda>c. [c]) (dquote # body @ [dquote])) = dquote # body @ [dquote]"
      by (rule concat_singletons)
    show "loop source st =
       loop source (st\<lparr>output_list := output_list st @ map (\<lambda>c. [c]) (dquote # body @ [dquote]),
                       i := i st + length body + 2\<rparr>)"
      using h by (intro string_literal_skip [where rest = rest]) simp_all
  qed
next
  assume h: "in_string st1 \<and> drop (i st1) source = backslash # d # r"
  then have v: "drop (i st1) source = backslash # d # r" by simp
  show "step source st1 =
        Inr (st1\<lparr>output_list := output_list st1 @ [[backslash], [d]], i := i st1 + 2\<rparr>)"
    using h by (simp add: step_def step_string_view [OF v])
next
  assume h: "in_string st2 \<and> drop (i st2) source = [backslash]"
  then have v: "drop (i st2) source = [backslash]" by simp
  show "step source st2 =
        Inr (st2\<lparr>output_list := output_list st2 @ [[backslash]], i := i st2 + 1\<rparr>)"
    using h by (simp add: step_def step_string_view [OF v])
next
  show "remove_comments_swift (''x = '' @ [dquote] @ ''a'' @ [backslash, dquote] @ ''b'' @ [dquote]) =
     Inr (''x = '' @ [dquote] @ ''a'' @ [backslash, dquote] @ ''b'' @ [dquote])"
    by code_simp
qed

theorem string_literal_copied_witness:
  "(in_code initial_state \<and>
    drop (i initial_state) (dquote # ''a'' @ [backslash, dquote] @ ''//'' @ [dquote, backslash]) =
      dquote # (''a'' @ [backslash, dquote] @ ''//'') @ dquote # [backslash] \<and>
    string_body (''a'' @ [backslash, dquote] @ ''//'') \<and>
    \<not> startswith (dquote # ''a'' @ [backslash, dquote] @ ''//'' @ [dquote, backslash])
        triple_quote (i initial_state) \<and>
    (\<exists>pieces. concat pieces = dquote # (''a'' @ [backslash, dquote] @ ''//'') @ [dquote] \<and>
       loop (dquote # ''a'' @ [backslash, dquote] @ ''//'' @ [dquote, backslash]) initial_state =
         loop (dquote # ''a'' @ [backslash, dquote] @ ''//'' @ [dquote, backslash])
           (initial_state\<lparr>output_list := output_list initial_state @ pieces,
                           i := i initial_state + length (''a'' @ [backslash, dquote] @ ''//'') + 2\<rparr>))) \<and>
   (in_string (initial_state\<lparr>in_string := True, i := 2\<rparr>) \<and>
    drop (i (initial_state\<lparr>in_string := True, i := 2\<rparr>))
      (dquote # ''a'' @ [backslash, dquote] @ ''//'' @ [dquote, backslash]) =
      backslash # dquote # (''//'' @ [dquote, backslash]) \<and>
    step (dquote # ''a'' @ [backslash, dquote] @ ''//'' @ [dquote, backslash])
        (initial_state\<lparr>in_string := True, i := 2\<rparr>) =
      Inr (initial_state\<lparr>in_string := True, output_list := [[backslash], [dquote]], i := 4\<rparr>)) \<and>
   (in_string (initial_state\<lparr>in_string := True, i := 7\<rparr>) \<and>
    drop (i (initial_state\<lparr>in_string := True, i := 7\<rparr>))
      (dquote # ''a'' @ [backslash, dquote] @ ''//'' @ [dquote, backslash]) = [backslash] \<and>
    step (dquote # ''a'' @ [backslash, dquote] @ ''//'' @ [dquote, backslash])
        (initial_state\<lparr>in_string := True, i := 7\<rparr>) =
      Inr (initial_state\<lparr>in_string := True, output_list := [[backslash]], i := 8\<rparr>))"
  using string_literal_copied
    [of initial_state "dquote # ''a'' @ [backslash, dquote] @ ''//'' @ [dquote, backslash]"
        "''a'' @ [backslash, dquote] @ ''//''" "[backslash]"
        "initial_state\<lparr>in_string := True, i := 2\<rparr>" dquote "''//'' @ [dquote, backslash]"
        "initial_state\<lparr>in_string := True, i := 7\<rparr>"]
  by (simp add: initial_state_def in_code_def startswith_def)

section \<open>Multi-line string literals\<close>

lemma multiline_char_to:
  assumes "\<not> in_string st" "in_multiline st" and v: "drop (i st) source = c # r"
    and "c \<noteq> backslash" "\<not> startswith source triple_quote (i st)"
    and "st' = st\<lparr>output_list := output_list st @ [[c]], i := i st + 1\<rparr>"
  shows "loop source st = loop source st'"
proof -
  have "step source st = Inr st'"
    using assms by (simp add: step_def step_multiline_view [OF v])
  then show ?thesis
    by (rule loop_step [OF v])
qed

lemma multiline_escape_to:
  assumes "\<not> in_string st" "in_multiline st"
    and v: "drop (i st) source = backslash # d # r"
    and "st' = st\<lparr>output_list := output_list st @ [[backslash], [d]], i := i st + 2\<rparr>"
  shows "loop source st = loop source st'"
proof -
  have "\<not> startswith source triple_quote (i st)"
    using v by (simp add: startswith_def)
  then have "step source st = Inr st'"
    using assms by (simp add: step_def step_multiline_view [OF v])
  then show ?thesis
    by (rule loop_step [OF v])
qed

lemma multiline_close_to:
  assumes "\<not> in_string st" "in_multiline st"
    and v: "drop (i st) source = dquote # dquote # dquote # r"
    and "st' = st\<lparr>output_list := output_list st @ [triple_quote], i := i st + 3,
                      in_multiline := False\<rparr>"
  shows "loop source st = loop source st'"
proof -
  have "startswith source triple_quote (i st)"
    using v by (simp add: startswith_def)
  then have "step source st = Inr st'"
    using assms by (simp add: step_def step_multiline_view [OF v])
  then show ?thesis
    by (rule loop_step [OF v])
qed

lemma multiline_skip:
  "multiline_body body \<Longrightarrow> \<not> in_string st \<Longrightarrow> in_multiline st \<Longrightarrow>
   drop (i st) source = body @ triple_quote @ rest \<Longrightarrow>
   loop source st =
     loop source (st\<lparr>output_list := output_list st @ map (\<lambda>c. [c]) body @ [triple_quote],
                     in_multiline := False, i := i st + length body + 3\<rparr>)"
proof (induction body arbitrary: st rule: multiline_body.induct)
  case 1
  then show ?case
    by (intro multiline_close_to [where r = rest]) simp_all
next
  case (2 c)
  let ?s1 = "st\<lparr>output_list := output_list st @ [[c]], i := i st + 1\<rparr>"
  have v: "drop (i st) source = c # (triple_quote @ rest)"
    using 2 by simp
  have "loop source st = loop source ?s1"
    using 2 v by (intro multiline_char_to [OF _ _ v]) (simp_all add: startswith_def)
  also have "\<dots> = loop source (st\<lparr>output_list := output_list st @ map (\<lambda>c. [c]) [c] @ [triple_quote],
                     in_multiline := False, i := i st + length [c] + 3\<rparr>)"
    using 2 drop_view_Suc [OF v] by (intro multiline_close_to [where r = rest]) simp_all
  finally show ?case .
next
  case (3 c d cs)
  have v: "drop (i st) source = c # d # (cs @ triple_quote @ rest)"
    using 3 by simp
  show ?case
  proof (cases "c = backslash")
    case True
    let ?s1 = "st\<lparr>output_list := output_list st @ [[backslash], [d]], i := i st + 2\<rparr>"
    have v1: "drop (i ?s1) source = cs @ triple_quote @ rest"
      using drop_view_to [of "i st" source "[c, d]" "cs @ triple_quote @ rest" "i ?s1"] v by simp
    have "loop source st = loop source ?s1"
      using 3 v True
      by (intro multiline_escape_to [where d = d and r = "cs @ triple_quote @ rest"]) simp_all
    also have "\<dots> = loop source (?s1\<lparr>output_list := output_list ?s1 @ map (\<lambda>c. [c]) cs @ [triple_quote],
                     in_multiline := False, i := i ?s1 + length cs + 3\<rparr>)"
      using 3 True v1 by (intro "3.IH"(1)) simp_all
    finally show ?thesis
      using True by simp
  next
    case False
    let ?s1 = "st\<lparr>output_list := output_list st @ [[c]], i := i st + 1\<rparr>"
    have v1: "drop (i ?s1) source = (d # cs) @ triple_quote @ rest"
      using drop_view_Suc [OF v] by simp
    have nt: "\<not> startswith source triple_quote (i st)"
      using "3.prems"(1) False v by (cases cs) (auto simp: startswith_def)
    have "loop source st = loop source ?s1"
      using 3 False nt by (intro multiline_char_to [OF _ _ v]) simp_all
    also have "\<dots> = loop source (?s1\<lparr>output_list := output_list ?s1 @ map (\<lambda>c. [c]) (d # cs) @ [triple_quote],
                     in_multiline := False, i := i ?s1 + length (d # cs) + 3\<rparr>)"
      using 3 False v1 by (intro "3.IH"(2)) simp_all
    finally show ?thesis
      by simp
  qed
qed

lemma enter_multiline_to:
  assumes "in_code st" and v: "drop (i st) source = dquote # dquote # dquote # r"
    and "st' = st\<lparr>output_list := output_list st @ [triple_quote], in_multiline := True,
                      i := i st + 3\<rparr>"
  shows "loop source st = loop source st'"
proof -
  have "startswith source triple_quote (i st)"
    using v by (simp add: startswith_def)
  then have "step source st = Inr st'"
    using assms by (simp add: in_code_def step_def step_code_view [OF v])
  then show ?thesis
    by (rule loop_step [OF v])
qed

lemma multiline_literal_skip:
  assumes code: "in_code st"
    and v: "drop (i st) source = triple_quote @ body @ triple_quote @ rest"
    and body: "multiline_body body"
  shows "loop source st =
     loop source (st\<lparr>output_list := output_list st @
                       [triple_quote] @ map (\<lambda>c. [c]) body @ [triple_quote],
                     i := i st + length body + 6\<rparr>)"
proof -
  let ?s1 = "st\<lparr>output_list := output_list st @ [triple_quote], in_multiline := True, i := i st + 3\<rparr>"
  have v1: "drop (i ?s1) source = body @ triple_quote @ rest"
    by (rule drop_view_to [OF v]) simp
  have "loop source st = loop source ?s1"
    using code v by (intro enter_multiline_to [where r = "body @ triple_quote @ rest"]) simp_all
  also have "\<dots> = loop source (?s1\<lparr>output_list := output_list ?s1 @ map (\<lambda>c. [c]) body @ [triple_quote],
                     in_multiline := False, i := i ?s1 + length body + 3\<rparr>)"
    using body v1 code by (intro multiline_skip) (simp_all add: in_code_def)
  also have "?s1\<lparr>output_list := output_list ?s1 @ map (\<lambda>c. [c]) body @ [triple_quote],
                     in_multiline := False, i := i ?s1 + length body + 3\<rparr> =
     st\<lparr>output_list := output_list st @ [triple_quote] @ map (\<lambda>c. [c]) body @ [triple_quote],
                     i := i st + length body + 6\<rparr>"
    using code scan_state_flag_eqs(3) [of st] by (simp add: in_code_def)
  finally show ?thesis .
qed

text \<open>
  C5: a triple-quoted literal met in the code state is copied to the output as it is,
  delimiters included, whatever its body holds (\<^verbatim>\<open>//\<close>, \<^verbatim>\<open>/*\<close>, newlines); the
  scan continues in the code state after the closing delimiter. Every iteration in the
  multi-line state emits exactly the characters it passes and leaves the comment flag
  and the comment depth as they are. A literal of two lines with \<^verbatim>\<open>//\<close> and
  \<^verbatim>\<open>/* */\<close> inside is returned unchanged while the line comment after it is
  dropped.
\<close>

theorem multiline_literal_copied:
  "(in_code st \<and> drop (i st) source = triple_quote @ body @ triple_quote @ rest \<and>
    multiline_body body \<longrightarrow>
      (\<exists>pieces. concat pieces = triple_quote @ body @ triple_quote \<and>
         loop source st =
           loop source (st\<lparr>output_list := output_list st @ pieces,
                           i := i st + length body + 6\<rparr>))) \<and>
   (\<not> in_string st1 \<and> in_multiline st1 \<and> i st1 < length source \<longrightarrow>
      (\<exists>st'. step source st1 = Inr st' \<and>
         concat (output_list st') =
           concat (output_list st1) @ take (i st' - i st1) (drop (i st1) source) \<and>
         in_line_comment st' = in_line_comment st1 \<and>
         block_comment_depth st' = block_comment_depth st1)) \<and>
   remove_comments_swift
       (triple_quote @ ''x // y'' @ [newline] @ ''/* z */'' @ triple_quote @ ''//w'') =
     Inr (triple_quote @ ''x // y'' @ [newline] @ ''/* z */'' @ triple_quote)"
proof (intro conjI impI)
  assume h: "in_code st \<and> drop (i st) source = triple_quote @ body @ triple_quote @ rest \<and>
    multiline_body body"
  show "\<exists>pieces. concat pieces = triple_quote @ body @ triple_quote \<and>
         loop source st =
           loop source (st\<lparr>output_list := output_list st @ pieces,
                           i := i st + length body + 6\<rparr>)"
  proof (intro exI conjI)
    show "concat ([triple_quote] @ map (\<lambda>c. [c]) body @ [triple_quote]) =
        triple_quote @ body @ triple_quote"
      by (simp add: concat_singletons)
    show "loop source st =
       loop source (st\<lparr>output_list := output_list st @
                         [triple_quote] @ map (\<lambda>c. [c]) body @ [triple_quote],
                       i := i st + length body + 6\<rparr>)"
      using h by (intro multiline_literal_skip [where rest = rest]) simp_all
  qed
next
  assume h: "\<not> in_string st1 \<and> in_multiline st1 \<and> i st1 < length source"
  then obtain c r where v: "drop (i st1) source = c # r"
    using drop_view by blast
  show "\<exists>st'. step source st1 = Inr st' \<and>
         concat (output_list st') =
           concat (output_list st1) @ take (i st' - i st1) (drop (i st1) source) \<and>
         in_line_comment st' = in_line_comment st1 \<and>
         block_comment_depth st' = block_comment_depth st1"
  proof (cases "startswith source triple_quote (i st1)")
    case True
    then show ?thesis
      using h startswith_take3 [of source _ _ _ "i st1"]
      by (simp add: step_def step_multiline_view [OF v])
  next
    case False
    then show ?thesis
      using h by (cases r) (simp_all add: step_def step_multiline_view [OF v] v)
  qed
next
  show "remove_comments_swift
       (triple_quote @ ''x // y'' @ [newline] @ ''/* z */'' @ triple_quote @ ''//w'') =
     Inr (triple_quote @ ''x // y'' @ [newline] @ ''/* z */'' @ triple_quote)"
    by code_simp
qed

theorem multiline_literal_copied_witness:
  "(in_code initial_state \<and>
    drop (i initial_state) (triple_quote @ (''/*'' @ [newline] @ ''//'') @ triple_quote @ ''z'') =
      triple_quote @ (''/*'' @ [newline] @ ''//'') @ triple_quote @ ''z'' \<and>
    multiline_body (''/*'' @ [newline] @ ''//'') \<and>
    (\<exists>pieces. concat pieces = triple_quote @ (''/*'' @ [newline] @ ''//'') @ triple_quote \<and>
       loop (triple_quote @ (''/*'' @ [newline] @ ''//'') @ triple_quote @ ''z'') initial_state =
         loop (triple_quote @ (''/*'' @ [newline] @ ''//'') @ triple_quote @ ''z'')
           (initial_state\<lparr>output_list := output_list initial_state @ pieces,
                           i := i initial_state + length (''/*'' @ [newline] @ ''//'') + 6\<rparr>))) \<and>
   (\<not> in_string (initial_state\<lparr>in_multiline := True, i := 3\<rparr>) \<and>
    in_multiline (initial_state\<lparr>in_multiline := True, i := 3\<rparr>) \<and>
    i (initial_state\<lparr>in_multiline := True, i := 3\<rparr>) <
      length (triple_quote @ (''/*'' @ [newline] @ ''//'') @ triple_quote @ ''z'') \<and>
    (\<exists>st'. step (triple_quote @ (''/*'' @ [newline] @ ''//'') @ triple_quote @ ''z'')
            (initial_state\<lparr>in_multiline := True, i := 3\<rparr>) = Inr st' \<and>
       in_line_comment st' = False \<and> block_comment_depth st' = 0))"
  using multiline_literal_copied
    [of initial_state "triple_quote @ (''/*'' @ [newline] @ ''//'') @ triple_quote @ ''z''"
        "''/*'' @ [newline] @ ''//''" "''z''" "initial_state\<lparr>in_multiline := True, i := 3\<rparr>"]
  by (auto simp: initial_state_def in_code_def)

section \<open>The order of the checks in the code state\<close>

text \<open>
  C8: in the code state the checks run in the order \<^verbatim>\<open>"""\<close>, \<^verbatim>\<open>"\<close>, \<^verbatim>\<open>//\<close>,
  \<^verbatim>\<open>/*\<close>, and the first that holds decides the iteration. So a cursor on \<^verbatim>\<open>"""\<close>
  always leads to the multi-line state, three characters on, never to the string state;
  and an iteration that enters a comment state started at a cursor where both string
  checks failed.
\<close>

theorem code_state_check_order:
  "in_code st \<and> i st < length source \<longrightarrow>
     step source st =
       Inr (if startswith source triple_quote (i st) then
              st\<lparr>output_list := output_list st @ [triple_quote], in_multiline := True,
                   i := i st + 3\<rparr>
            else if source ! i st = dquote then
              st\<lparr>output_list := output_list st @ [[dquote]], in_string := True, i := i st + 1\<rparr>
            else if startswith source ''//'' (i st) then
              st\<lparr>in_line_comment := True, i := i st + 2\<rparr>
            else if startswith source ''/*'' (i st) then
              st\<lparr>block_comment_depth := 1, i := i st + 2\<rparr>
            else st\<lparr>output_list := output_list st @ [[source ! i st]], i := i st + 1\<rparr>) \<and>
     (startswith source triple_quote (i st) \<longrightarrow>
        (\<exists>st'. step source st = Inr st' \<and> in_multiline st' \<and> \<not> in_string st' \<and>
           i st' = i st + 3)) \<and>
     (\<forall>st'. step source st = Inr st' \<and> (in_line_comment st' \<or> block_comment_depth st' > 0) \<longrightarrow>
        \<not> startswith source triple_quote (i st) \<and> source ! i st \<noteq> dquote)"
proof
  assume h: "in_code st \<and> i st < length source"
  then obtain r where v: "drop (i st) source = source ! i st # r"
    using drop_view by blast
  have s: "step source st =
       Inr (if startswith source triple_quote (i st) then
              st\<lparr>output_list := output_list st @ [triple_quote], in_multiline := True,
                   i := i st + 3\<rparr>
            else if source ! i st = dquote then
              st\<lparr>output_list := output_list st @ [[dquote]], in_string := True, i := i st + 1\<rparr>
            else if startswith source ''//'' (i st) then
              st\<lparr>in_line_comment := True, i := i st + 2\<rparr>
            else if startswith source ''/*'' (i st) then
              st\<lparr>block_comment_depth := 1, i := i st + 2\<rparr>
            else st\<lparr>output_list := output_list st @ [[source ! i st]], i := i st + 1\<rparr>)"
    using h by (simp add: in_code_def step_def step_code_view [OF v])
  show "step source st =
       Inr (if startswith source triple_quote (i st) then
              st\<lparr>output_list := output_list st @ [triple_quote], in_multiline := True,
                   i := i st + 3\<rparr>
            else if source ! i st = dquote then
              st\<lparr>output_list := output_list st @ [[dquote]], in_string := True, i := i st + 1\<rparr>
            else if startswith source ''//'' (i st) then
              st\<lparr>in_line_comment := True, i := i st + 2\<rparr>
            else if startswith source ''/*'' (i st) then
              st\<lparr>block_comment_depth := 1, i := i st + 2\<rparr>
            else st\<lparr>output_list := output_list st @ [[source ! i st]], i := i st + 1\<rparr>) \<and>
     (startswith source triple_quote (i st) \<longrightarrow>
        (\<exists>st'. step source st = Inr st' \<and> in_multiline st' \<and> \<not> in_string st' \<and>
           i st' = i st + 3)) \<and>
     (\<forall>st'. step source st = Inr st' \<and> (in_line_comment st' \<or> block_comment_depth st' > 0) \<longrightarrow>
        \<not> startswith source triple_quote (i st) \<and> source ! i st \<noteq> dquote)"
  proof (intro conjI)
    show "step source st =
       Inr (if startswith source triple_quote (i st) then
              st\<lparr>output_list := output_list st @ [triple_quote], in_multiline := True,
                   i := i st + 3\<rparr>
            else if source ! i st = dquote then
              st\<lparr>output_list := output_list st @ [[dquote]], in_string := True, i := i st + 1\<rparr>
            else if startswith source ''//'' (i st) then
              st\<lparr>in_line_comment := True, i := i st + 2\<rparr>
            else if startswith source ''/*'' (i st) then
              st\<lparr>block_comment_depth := 1, i := i st + 2\<rparr>
            else st\<lparr>output_list := output_list st @ [[source ! i st]], i := i st + 1\<rparr>)"
      by (rule s)
    show "startswith source triple_quote (i st) \<longrightarrow>
        (\<exists>st'. step source st = Inr st' \<and> in_multiline st' \<and> \<not> in_string st' \<and>
           i st' = i st + 3)"
      using h by (simp add: s in_code_def)
    show "\<forall>st'. step source st = Inr st' \<and> (in_line_comment st' \<or> block_comment_depth st' > 0) \<longrightarrow>
        \<not> startswith source triple_quote (i st) \<and> source ! i st \<noteq> dquote"
      using h by (auto simp: s in_code_def split: if_splits)
  qed
qed

theorem code_state_check_order_witness:
  "in_code initial_state \<and> i initial_state < length (triple_quote @ '' '' @ [dquote] @ '' //x'') \<and>
   step (triple_quote @ '' '' @ [dquote] @ '' //x'') initial_state =
     Inr (initial_state\<lparr>output_list := [triple_quote], in_multiline := True, i := 3\<rparr>) \<and>
   remove_comments_swift (triple_quote @ '' '' @ [dquote] @ '' //x'') =
     Inr (triple_quote @ '' '' @ [dquote] @ '' //x'')"
proof -
  have "remove_comments_swift (triple_quote @ '' '' @ [dquote] @ '' //x'') =
     Inr (triple_quote @ '' '' @ [dquote] @ '' //x'')"
    by code_simp
  then show ?thesis
    using code_state_check_order [of initial_state "triple_quote @ '' '' @ [dquote] @ '' //x''"]
    by (simp add: initial_state_def in_code_def startswith_def)
qed

section \<open>A backslash before the closing delimiter of a multi-line string\<close>

text \<open>
  C1 as stated fails. On \<^verbatim>\<open>"""a\"""//x\<close> the scan ends in the multi-line state and
  the text \<^verbatim>\<open>//x\<close> after the delimiter is kept: the \<^verbatim>\<open>"""\<close> after the backslash
  did not end the string.
\<close>

theorem escaped_triple_quote_counterexample:
  "loop (triple_quote @ ''a'' @ backslash # triple_quote @ ''//x'') initial_state =
     Inr \<lparr>i = 11,
          output_list = [triple_quote, ''a'', [backslash], [dquote], [dquote], [dquote],
                         ''/'', ''/'', ''x''],
          in_string = False, in_multiline = True, in_line_comment = False,
          block_comment_depth = 0\<rparr> \<and>
   remove_comments_swift (triple_quote @ ''a'' @ backslash # triple_quote @ ''//x'') =
     Inr (triple_quote @ ''a'' @ backslash # triple_quote @ ''//x'')"
  by code_simp

text \<open>
  C1, amended: in the multi-line state with the cursor on a backslash that is followed
  by \<^verbatim>\<open>"""\<close>, the iteration emits the backslash and the first quote, moves the cursor
  two characters on and stays in the multi-line state. The next iteration, on the two
  quotes that remain, ends the string only if a third quote follows them; otherwise it
  emits one quote and stays in the multi-line state.
\<close>

theorem escaped_triple_quote_protected:
  "\<not> in_string st \<and> in_multiline st \<and> drop (i st) source = backslash # triple_quote @ rest \<longrightarrow>
     step source st =
       Inr (st\<lparr>output_list := output_list st @ [[backslash], [dquote]], i := i st + 2\<rparr>) \<and>
     step source (st\<lparr>output_list := output_list st @ [[backslash], [dquote]], i := i st + 2\<rparr>) =
       Inr (if startswith source triple_quote (i st + 2) then
              st\<lparr>output_list := output_list st @ [[backslash], [dquote], triple_quote],
                   i := i st + 5, in_multiline := False\<rparr>
            else
              st\<lparr>output_list := output_list st @ [[backslash], [dquote], [dquote]],
                   i := i st + 3\<rparr>)"
proof
  assume h: "\<not> in_string st \<and> in_multiline st \<and>
    drop (i st) source = backslash # triple_quote @ rest"
  let ?s1 = "st\<lparr>output_list := output_list st @ [[backslash], [dquote]], i := i st + 2\<rparr>"
  have v: "drop (i st) source = backslash # dquote # (dquote # dquote # rest)"
    using h by simp
  have nt: "\<not> startswith source triple_quote (i st)"
    using v by (simp add: startswith_def)
  have v1: "drop (i ?s1) source = dquote # (dquote # rest)"
    using drop_view_to [of "i st" source "[backslash, dquote]" "dquote # dquote # rest" "i ?s1"] v
    by simp
  have 1: "step source st = Inr ?s1"
    using h nt by (simp add: step_def step_multiline_view [OF v])
  have 2: "step source ?s1 =
       Inr (if startswith source triple_quote (i st + 2) then
              st\<lparr>output_list := output_list st @ [[backslash], [dquote], triple_quote],
                   i := i st + 5, in_multiline := False\<rparr>
            else
              st\<lparr>output_list := output_list st @ [[backslash], [dquote], [dquote]],
                   i := i st + 3\<rparr>)"
    using h step_multiline_view [OF v1] by (simp add: step_def)
  from 1 2 show "step source st = Inr ?s1 \<and> step source ?s1 =
       Inr (if startswith source triple_quote (i st + 2) then
              st\<lparr>output_list := output_list st @ [[backslash], [dquote], triple_quote],
                   i := i st + 5, in_multiline := False\<rparr>
            else
              st\<lparr>output_list := output_list st @ [[backslash], [dquote], [dquote]],
                   i := i st + 3\<rparr>)"
    by simp
qed

theorem escaped_triple_quote_protected_witness:
  "\<not> in_string (initial_state\<lparr>in_multiline := True, i := 4\<rparr>) \<and>
   in_multiline (initial_state\<lparr>in_multiline := True, i := 4\<rparr>) \<and>
   drop (i (initial_state\<lparr>in_multiline := True, i := 4\<rparr>))
     (triple_quote @ ''a'' @ backslash # triple_quote @ ''//x'') =
     backslash # triple_quote @ ''//x'' \<and>
   step (triple_quote @ ''a'' @ backslash # triple_quote @ ''//x'')
       (initial_state\<lparr>in_multiline := True, i := 4\<rparr>) =
     Inr (initial_state\<lparr>in_multiline := True, output_list := [[backslash], [dquote]], i := 6\<rparr>) \<and>
   step (triple_quote @ ''a'' @ backslash # triple_quote @ ''//x'')
       (initial_state\<lparr>in_multiline := True, output_list := [[backslash], [dquote]], i := 6\<rparr>) =
     Inr (initial_state\<lparr>in_multiline := True,
            output_list := [[backslash], [dquote], [dquote]], i := 7\<rparr>)"
  using escaped_triple_quote_protected
    [of "initial_state\<lparr>in_multiline := True, i := 4\<rparr>"
        "triple_quote @ ''a'' @ backslash # triple_quote @ ''//x''" "''//x''"]
  by (simp add: initial_state_def startswith_def)

section \<open>Scanning the output again\<close>

























end
